theory Spec2Isabelle
  imports Complex_Main "HOL-Library.Log_Nat" "HOL-Library.Sublist"
begin

section \<open>The type \<open>double\<close>\<close>

text \<open>
  Every cost and every discount rate of the program is a C++ \<open>double\<close>: an IEEE 754
  binary64 number, with the default rounding (to nearest, ties to even). A finite double
  is a sign and a magnitude; the magnitude is a rational on the binary64 grid (see
  \<open>is_double\<close>). The payload of a NaN is not observable by the program and is left out.
\<close>

datatype double = Finite bool rat | Infinity bool | NaN

text \<open>The sign is \<open>True\<close> for a negative number. The exact value of a finite double:\<close>

definition sval :: "bool \<Rightarrow> rat \<Rightarrow> rat" where
  "sval s q = (if s then - q else q)"

text \<open>Rounding of a rational to the nearest integer, ties to the even one.\<close>

definition rne :: "rat \<Rightarrow> int" where
  "rne x = (let f = \<lfloor>x\<rfloor>; r = x - of_int f in
     if r < 1 / 2 then f else if 1 / 2 < r then f + 1 else if even f then f else f + 1)"

text \<open>
  The smallest positive double is \<open>2\<^sup>-\<^sup>1\<^sup>0\<^sup>7\<^sup>4\<close>; every finite double is a multiple of it. The
  largest finite double is below \<open>2\<^sup>1\<^sup>0\<^sup>2\<^sup>4\<close>.
\<close>

definition subnormal_scale :: rat where
  "subnormal_scale = 2 ^ 1074"

definition overflow_threshold :: rat where
  "overflow_threshold = 2 ^ 1024"

text \<open>
  Rounding of a magnitude \<open>x \<ge> 0\<close> to 53 significant bits. In units of the smallest
  positive double the magnitude is \<open>x * subnormal_scale\<close>; when its integer part has more
  than 53 bits, the bits after the leading 53 are rounded away: \<open>lsb_exp x\<close> of them. No
  bit below the unit is kept (the subnormal range), so \<open>lsb_exp x\<close> is never negative.
\<close>

definition lsb_exp :: "rat \<Rightarrow> nat" where
  "lsb_exp x = nat (bitlen \<lfloor>x * subnormal_scale\<rfloor> - 53)"

definition round_mag :: "rat \<Rightarrow> rat" where
  "round_mag x = (let k = lsb_exp x in
     of_int (rne (x * subnormal_scale / 2 ^ k)) * 2 ^ k / subnormal_scale)"

text \<open>
  Rounding of an exact result to a double. A magnitude that rounds to \<open>2\<^sup>1\<^sup>0\<^sup>2\<^sup>4\<close> or more
  overflows to an infinity. \<open>z\<close> is the sign that an exact zero gets.
\<close>

definition round_double :: "bool \<Rightarrow> rat \<Rightarrow> double" where
  "round_double z x = (let s = (x < 0 \<or> (x = 0 \<and> z)); m = round_mag \<bar>x\<bar> in
     if overflow_threshold \<le> m then Infinity s else Finite s m)"

text \<open>The doubles are the values of the datatype whose magnitude is on the grid.\<close>

fun is_double :: "double \<Rightarrow> bool" where
  "is_double (Finite s q) = (0 \<le> q \<and> q < overflow_threshold \<and> round_mag q = q)"
| "is_double (Infinity s) = True"
| "is_double NaN = True"

subsection \<open>Arithmetic\<close>

text \<open>
  Each operation returns its exact result, rounded. An exact zero is negative when both
  summands are negative, and when one factor (or one of dividend and divisor) is negative.
  \<open>a - b\<close> is \<open>a + (-b)\<close>.
\<close>

fun d_neg :: "double \<Rightarrow> double" where
  "d_neg (Finite s q) = Finite (\<not> s) q"
| "d_neg (Infinity s) = Infinity (\<not> s)"
| "d_neg NaN = NaN"

fun d_add :: "double \<Rightarrow> double \<Rightarrow> double" where
  "d_add (Finite s p) (Finite t q) = round_double (s \<and> t) (sval s p + sval t q)"
| "d_add (Finite s p) (Infinity t) = Infinity t"
| "d_add (Infinity s) (Finite t q) = Infinity s"
| "d_add (Infinity s) (Infinity t) = (if s = t then Infinity s else NaN)"
| "d_add NaN b = NaN"
| "d_add a NaN = NaN"

definition d_sub :: "double \<Rightarrow> double \<Rightarrow> double" where
  "d_sub a b = d_add a (d_neg b)"

fun d_mul :: "double \<Rightarrow> double \<Rightarrow> double" where
  "d_mul (Finite s p) (Finite t q) = round_double (s \<noteq> t) (sval s p * sval t q)"
| "d_mul (Finite s p) (Infinity t) = (if p = 0 then NaN else Infinity (s \<noteq> t))"
| "d_mul (Infinity s) (Finite t q) = (if q = 0 then NaN else Infinity (s \<noteq> t))"
| "d_mul (Infinity s) (Infinity t) = Infinity (s \<noteq> t)"
| "d_mul NaN b = NaN"
| "d_mul a NaN = NaN"

fun d_div :: "double \<Rightarrow> double \<Rightarrow> double" where
  "d_div (Finite s p) (Finite t q) =
     (if q = 0 then (if p = 0 then NaN else Infinity (s \<noteq> t))
      else round_double (s \<noteq> t) (sval s p / sval t q))"
| "d_div (Finite s p) (Infinity t) = Finite (s \<noteq> t) 0"
| "d_div (Infinity s) (Finite t q) = Infinity (s \<noteq> t)"
| "d_div (Infinity s) (Infinity t) = NaN"
| "d_div NaN b = NaN"
| "d_div a NaN = NaN"

subsection \<open>Comparisons\<close>

text \<open>Every comparison with a NaN is false; \<open>-0.0\<close> and \<open>0.0\<close> are equal.\<close>

fun d_lt :: "double \<Rightarrow> double \<Rightarrow> bool" where
  "d_lt (Finite s p) (Finite t q) = (sval s p < sval t q)"
| "d_lt (Finite s p) (Infinity t) = (\<not> t)"
| "d_lt (Infinity s) (Finite t q) = s"
| "d_lt (Infinity s) (Infinity t) = (s \<and> \<not> t)"
| "d_lt NaN b = False"
| "d_lt a NaN = False"

fun d_eq :: "double \<Rightarrow> double \<Rightarrow> bool" where
  "d_eq (Finite s p) (Finite t q) = (sval s p = sval t q)"
| "d_eq (Infinity s) (Infinity t) = (s = t)"
| "d_eq a b = False"

definition d_le :: "double \<Rightarrow> double \<Rightarrow> bool" where
  "d_le a b = (d_lt a b \<or> d_eq a b)"

definition d_ge :: "double \<Rightarrow> double \<Rightarrow> bool" where
  "d_ge a b = d_le b a"

subsection \<open>Literals and conversions\<close>

text \<open>
  The literals \<open>0.0\<close>, \<open>1.0\<close> and \<open>100.0\<close> of the source are doubles as they stand (lemma
  \<open>literals_are_doubles\<close>). \<open>d_of_nat\<close> is \<open>static_cast<double>\<close> of a \<open>size_t\<close>.
\<close>

definition d_zero :: double where
  "d_zero = Finite False 0"

definition d_one :: double where
  "d_one = Finite False 1"

definition d_hundred :: double where
  "d_hundred = Finite False 100"

definition d_of_nat :: "nat \<Rightarrow> double" where
  "d_of_nat n = round_double False (of_nat n)"

text \<open>
  Two bounds for the discount: \<open>DBL_MIN\<close> is the smallest normal double, \<open>2\<^sup>-\<^sup>1\<^sup>0\<^sup>2\<^sup>2\<close>, and
  \<open>hundred_DBL_EPSILON\<close> is \<open>100 * DBL_EPSILON\<close>, that is \<open>100 * 2\<^sup>-\<^sup>5\<^sup>2\<close> (about \<open>2.2e-14\<close>).
\<close>

definition DBL_MIN :: double where
  "DBL_MIN = Finite False (1 / 2 ^ 1022)"

definition hundred_DBL_EPSILON :: double where
  "hundred_DBL_EPSILON = Finite False (100 / 2 ^ 52)"

section \<open>Exceptions\<close>

text \<open>
  The three exception classes derived from \<open>HotelException\<close>. Each message of the source is
  a fixed text; \<open>invalid_value\<close> names the five messages of \<open>InvalidValueException\<close>, and
  \<open>DuplicateRoomException\<close> carries the room number that its message quotes.
\<close>

datatype invalid_value =
    PercentNegative
  | PercentNotBelowHundred
  | NumberEmpty
  | BaseCostNotPositive
  | StrategyNull

datatype HotelException =
    InvalidValueException invalid_value
  | DuplicateRoomException string
  | EmptyRoomListException

section \<open>Discount strategies\<close>

text \<open>
  The two implementations of \<open>IDiscountStrategy\<close>. The datatype constructor
  \<open>PercentageDiscountStrategy\<close> is the object with its field \<open>discountPercent\<close>; the
  constructor of the class, which validates, is \<open>new_PercentageDiscountStrategy\<close>.
\<close>

datatype IDiscountStrategy =
    NoDiscountStrategy
  | PercentageDiscountStrategy double

definition new_PercentageDiscountStrategy :: "double \<Rightarrow> HotelException + IDiscountStrategy" where
  "new_PercentageDiscountStrategy percent =
     (if d_lt percent d_zero then Inl (InvalidValueException PercentNegative)
      else if d_ge percent d_hundred then Inl (InvalidValueException PercentNotBelowHundred)
      else Inr (PercentageDiscountStrategy percent))"

fun computeCost :: "IDiscountStrategy \<Rightarrow> double \<Rightarrow> double" where
  "computeCost NoDiscountStrategy cost = cost"
| "computeCost (PercentageDiscountStrategy percent) cost =
     d_mul cost (d_sub d_one (d_div percent d_hundred))"

section \<open>Rooms\<close>

text \<open>
  A \<open>RoomBase\<close> object exists only when its constructor has returned, so its strategy
  pointer is not null; the constructor takes the \<open>shared_ptr\<close>, which may be null (\<open>None\<close>).
\<close>

record RoomBase =
  number :: string
  baseCost :: double
  discountStrategy :: IDiscountStrategy

definition new_RoomBase ::
    "string \<Rightarrow> double \<Rightarrow> IDiscountStrategy option \<Rightarrow> HotelException + RoomBase" where
  "new_RoomBase num cost strategy =
     (if num = [] then Inl (InvalidValueException NumberEmpty)
      else if d_le cost d_zero then Inl (InvalidValueException BaseCostNotPositive)
      else case strategy of
             None \<Rightarrow> Inl (InvalidValueException StrategyNull)
           | Some s \<Rightarrow> Inr \<lparr>number = num, baseCost = cost, discountStrategy = s\<rparr>)"

definition getFinalCost :: "RoomBase \<Rightarrow> double" where
  "getFinalCost r = computeCost (discountStrategy r) (baseCost r)"

section \<open>The hotel\<close>

record Hotel =
  rooms :: "RoomBase list"

text \<open>\<open>Hotel() = default\<close>: the vector is empty.\<close>

definition new_Hotel :: Hotel where
  "new_Hotel = \<lparr>rooms = []\<rparr>"

fun existsRoomNumber_loop :: "RoomBase list \<Rightarrow> string \<Rightarrow> bool" where
  "existsRoomNumber_loop [] num = False"
| "existsRoomNumber_loop (r # rs) num =
     (if number r = num then True else existsRoomNumber_loop rs num)"

definition existsRoomNumber :: "Hotel \<Rightarrow> string \<Rightarrow> bool" where
  "existsRoomNumber h num = existsRoomNumber_loop (rooms h) num"

text \<open>
  \<open>addRoom\<close> returns nothing; it may throw, it changes the hotel and it may write one line
  to \<open>cerr\<close>. Its result is the exception thrown (if any), the hotel after the call and
  the lines written.
\<close>

datatype cerr_line = NumberTooLongWarning

record addRoom_result =
  thrown :: "HotelException option"
  hotel_after :: Hotel
  cerr :: "cerr_line list"

definition addRoom :: "Hotel \<Rightarrow> string \<Rightarrow> double \<Rightarrow> double \<Rightarrow> addRoom_result" where
  "addRoom h num cost percent =
     (let out = (if 50 < length num then [NumberTooLongWarning] else []) in
      if existsRoomNumber h num
      then \<lparr>thrown = Some (DuplicateRoomException num), hotel_after = h, cerr = out\<rparr>
      else
        case (if d_eq percent d_zero then Inr NoDiscountStrategy
              else new_PercentageDiscountStrategy percent) of
          Inl e \<Rightarrow> \<lparr>thrown = Some e, hotel_after = h, cerr = out\<rparr>
        | Inr strat \<Rightarrow>
            (case new_RoomBase num cost (Some strat) of
               Inl e \<Rightarrow> \<lparr>thrown = Some e, hotel_after = h, cerr = out\<rparr>
             | Inr room \<Rightarrow>
                 \<lparr>thrown = None, hotel_after = h\<lparr>rooms := rooms h @ [room]\<rparr>, cerr = out\<rparr>))"

text \<open>The loop of \<open>calculateAverageCost\<close>, with the running \<open>sum\<close> as \<open>acc\<close>.\<close>

fun calculateAverageCost_loop :: "double \<Rightarrow> RoomBase list \<Rightarrow> double" where
  "calculateAverageCost_loop acc [] = acc"
| "calculateAverageCost_loop acc (r # rs) =
     calculateAverageCost_loop (d_add acc (getFinalCost r)) rs"

definition calculateAverageCost :: "Hotel \<Rightarrow> HotelException + double" where
  "calculateAverageCost h =
     (if rooms h = [] then Inl EmptyRoomListException
      else Inr (d_div (calculateAverageCost_loop d_zero (rooms h))
                      (d_of_nat (length (rooms h)))))"

text \<open>
  A sequence of calls of \<open>addRoom\<close>, each with its number, cost and rate. \<open>addRoom\<close> is the
  only member function that changes a hotel, and a caller that catches its exception (as
  \<open>main\<close> does) goes on with the hotel as the call left it.
\<close>

fun addRoom_calls :: "Hotel \<Rightarrow> (string \<times> double \<times> double) list \<Rightarrow> Hotel" where
  "addRoom_calls h [] = h"
| "addRoom_calls h ((num, cost, percent) # cs) =
     addRoom_calls (hotel_after (addRoom h num cost percent)) cs"

section \<open>Properties of rounding\<close>

text \<open>
  Rounding is monotone (\<open>round_mag_mono\<close>), it leaves the doubles as they are
  (\<open>round_mag_exact\<close>), its result is a double (\<open>round_mag_idem\<close>) and no double is nearer
  to the exact value (\<open>round_mag_nearest\<close>).
\<close>

lemma rne_of_int: "rne (of_int n) = n"
  by (simp add: rne_def)

lemma rne_bounds: "\<lfloor>x\<rfloor> \<le> rne x \<and> rne x \<le> \<lfloor>x\<rfloor> + 1"
  by (simp add: rne_def Let_def)

lemma rne_mono: assumes "x \<le> y" shows "rne x \<le> rne y"
proof (cases "\<lfloor>x\<rfloor> = \<lfloor>y\<rfloor>")
  case True
  with assms show ?thesis by (auto simp: rne_def Let_def)
next
  case False
  with assms have "\<lfloor>x\<rfloor> < \<lfloor>y\<rfloor>" using floor_mono [of x y] by linarith
  then show ?thesis using rne_bounds [of x] rne_bounds [of y] by linarith
qed

lemma rne_ge_pow: "2 ^ n \<le> x \<Longrightarrow> 2 ^ n \<le> rne x"
  using rne_mono [of "of_int (2 ^ n)" x] rne_of_int [of "2 ^ n"] by simp

lemma rne_le_pow: "x \<le> 2 ^ n \<Longrightarrow> rne x \<le> 2 ^ n"
  using rne_mono [of x "of_int (2 ^ n)"] rne_of_int [of "2 ^ n"] by simp

lemma subnormal_scale_pos: "0 < subnormal_scale"
  by (simp add: subnormal_scale_def)

lemma lsb_exp_mono: assumes "x \<le> y" shows "lsb_exp x \<le> lsb_exp y"
proof -
  let ?X = "\<lfloor>x * subnormal_scale\<rfloor>" and ?Y = "\<lfloor>y * subnormal_scale\<rfloor>"
  have "?X \<le> ?Y" using assms subnormal_scale_pos by (intro floor_mono) simp
  moreover have "?Y < 2 ^ nat (bitlen ?Y)"
    using bitlen_le_iff_power [of ?Y "bitlen ?Y"] by simp
  ultimately have "bitlen ?X \<le> bitlen ?Y"
    using bitlen_le_iff_power [of ?X "bitlen ?Y"] bitlen_nonneg [of ?Y]
    by linarith
  then show ?thesis by (simp add: lsb_exp_def)
qed

lemma lsb_exp_upper: "x * subnormal_scale < 2 ^ (lsb_exp x + 53)"
proof -
  let ?X = "\<lfloor>x * subnormal_scale\<rfloor>"
  have "bitlen ?X \<le> int (lsb_exp x + 53)" by (simp add: lsb_exp_def)
  then have "?X < 2 ^ (lsb_exp x + 53)"
    using bitlen_le_iff_power [of ?X "int (lsb_exp x + 53)"] by (simp add: nat_add_distrib)
  then have "x * subnormal_scale < of_int (2 ^ (lsb_exp x + 53))" by (simp only: floor_less_iff)
  then show ?thesis by simp
qed

lemma lsb_exp_lower: assumes "0 < lsb_exp x" shows "2 ^ (lsb_exp x + 52) \<le> x * subnormal_scale"
proof -
  let ?X = "\<lfloor>x * subnormal_scale\<rfloor>"
  have "int (lsb_exp x + 53) \<le> bitlen ?X" using assms by (simp add: lsb_exp_def)
  then have "2 ^ (lsb_exp x + 52) \<le> ?X"
    using bitlen_ge_iff_power [of "int (lsb_exp x + 53)" ?X] by (simp add: nat_add_distrib add.commute)
  then have "of_int (2 ^ (lsb_exp x + 52)) \<le> x * subnormal_scale" by (simp only: le_floor_iff)
  then show ?thesis by simp
qed

text \<open>Rounding is monotone: across two binades, the power of two between them separates the results.\<close>

lemma round_mag_mono: assumes "x \<le> y" shows "round_mag x \<le> round_mag y"
proof -
  let ?c = subnormal_scale
  let ?kx = "lsb_exp x" and ?ky = "lsb_exp y"
  have k: "?kx \<le> ?ky" using assms by (rule lsb_exp_mono)
  have "of_int (rne (x * ?c / 2 ^ ?kx)) * 2 ^ ?kx \<le> (of_int (rne (y * ?c / 2 ^ ?ky)) * 2 ^ ?ky :: rat)"
  proof (cases "?kx = ?ky")
    case True
    have "x * ?c / 2 ^ ?ky \<le> y * ?c / 2 ^ ?ky"
      using assms subnormal_scale_pos by (simp add: divide_right_mono)
    then have "rne (x * ?c / 2 ^ ?ky) \<le> rne (y * ?c / 2 ^ ?ky)" by (rule rne_mono)
    then show ?thesis using True by simp
  next
    case False
    with k have lt: "?kx < ?ky" by simp
    then have "2 ^ (?ky + 52) \<le> y * ?c" using lsb_exp_lower [of y] by simp
    then have "2 ^ 52 \<le> y * ?c / 2 ^ ?ky" by (simp add: le_divide_eq power_add mult.commute)
    then have "2 ^ 52 \<le> rne (y * ?c / 2 ^ ?ky)" by (rule rne_ge_pow)
    then have "(of_int (2 ^ 52) :: rat) \<le> of_int (rne (y * ?c / 2 ^ ?ky))" by (simp only: of_int_le_iff)
    then have hi: "(2 ^ (?ky + 52) :: rat) \<le> of_int (rne (y * ?c / 2 ^ ?ky)) * 2 ^ ?ky"
      by (simp add: power_add mult.commute)
    have "x * ?c < 2 ^ (?kx + 53)" by (rule lsb_exp_upper)
    then have "x * ?c / 2 ^ ?kx \<le> 2 ^ 53" by (simp add: divide_le_eq power_add mult.commute)
    then have "rne (x * ?c / 2 ^ ?kx) \<le> 2 ^ 53" by (rule rne_le_pow)
    then have "(of_int (rne (x * ?c / 2 ^ ?kx)) :: rat) \<le> of_int (2 ^ 53)" by (simp only: of_int_le_iff)
    then have lo: "of_int (rne (x * ?c / 2 ^ ?kx)) * 2 ^ ?kx \<le> (2 ^ (?kx + 53) :: rat)"
      by (simp add: power_add mult.commute)
    have "(2::rat) ^ (?kx + 53) \<le> 2 ^ (?ky + 52)" using lt by (intro power_increasing) auto
    with lo hi show ?thesis by linarith
  qed
  then show ?thesis
    using subnormal_scale_pos by (simp add: round_mag_def Let_def divide_right_mono)
qed

lemma lsb_exp_le: assumes "x * subnormal_scale < 2 ^ (k + 53)" shows "lsb_exp x \<le> k"
proof -
  let ?X = "\<lfloor>x * subnormal_scale\<rfloor>"
  from assms have "x * subnormal_scale < of_int (2 ^ (k + 53))" by simp
  then have "?X < 2 ^ (k + 53)" by (simp only: floor_less_iff)
  then have "bitlen ?X \<le> int (k + 53)"
    using bitlen_le_iff_power [of ?X "int (k + 53)"] by (simp add: nat_add_distrib)
  then show ?thesis by (simp add: lsb_exp_def)
qed

lemma lsb_exp_ge: assumes "2 ^ (k + 52) \<le> x * subnormal_scale" shows "k \<le> lsb_exp x"
proof -
  let ?X = "\<lfloor>x * subnormal_scale\<rfloor>"
  from assms have "of_int (2 ^ (k + 52)) \<le> x * subnormal_scale" by simp
  then have "2 ^ (k + 52) \<le> ?X" by (simp only: le_floor_iff)
  then have "int (k + 53) \<le> bitlen ?X"
    using bitlen_ge_iff_power [of "int (k + 53)" ?X] by (simp add: nat_add_distrib add.commute)
  then show ?thesis by (simp add: lsb_exp_def)
qed

lemma round_mag_binade:
  assumes "2 ^ (k + 52) \<le> x * subnormal_scale" and "x * subnormal_scale < 2 ^ (k + 53)"
  shows "round_mag x = of_int (rne (x * subnormal_scale / 2 ^ k)) * 2 ^ k / subnormal_scale"
  using lsb_exp_le [OF assms(2)] lsb_exp_ge [OF assms(1)] by (simp add: round_mag_def Let_def)

text \<open>A multiple of the unit with at most 53 significant bits is on the grid.\<close>

lemma round_mag_exact:
  assumes x: "x * subnormal_scale = of_int (m * 2 ^ i)" and m: "0 \<le> m" "m < 2 ^ 53"
  shows "round_mag x = x"
proof -
  let ?c = subnormal_scale
  let ?k = "lsb_exp x"
  have "(of_int (m * 2 ^ i) :: rat) < of_int (2 ^ 53 * 2 ^ i)"
    using m by (simp only: of_int_less_iff) simp
  then have "x * ?c < 2 ^ (i + 53)" using x by (simp add: power_add mult.commute)
  then have "?k \<le> i" by (rule lsb_exp_le)
  then obtain d where i: "i = ?k + d" using le_Suc_ex by blast
  have "x * ?c / 2 ^ ?k = of_int (m * 2 ^ d)"
    using x by (simp add: i power_add)
  then have "rne (x * ?c / 2 ^ ?k) = m * 2 ^ d" by (simp only: rne_of_int)
  then have "of_int (rne (x * ?c / 2 ^ ?k)) * 2 ^ ?k = x * ?c"
    using x by (simp add: i power_add)
  then show ?thesis using subnormal_scale_pos by (simp add: round_mag_def Let_def)
qed

lemma round_mag_dyadic:
  assumes "m < 2 ^ 53" and "j \<le> 1074"
  shows "round_mag (of_nat m / 2 ^ j) = of_nat m / 2 ^ j"
proof -
  define N :: nat where "N = 1074"
  have c: "subnormal_scale = 2 ^ N" by (simp add: subnormal_scale_def N_def)
  from assms(2) obtain d where N: "N = j + d" using le_Suc_ex N_def by blast
  have "of_nat m / 2 ^ j * subnormal_scale = of_int (int m * 2 ^ d)"
    by (simp add: c N power_add)
  moreover have "int m < 2 ^ 53" using assms(1) by (simp flip: of_nat_less_iff)
  ultimately show ?thesis by (intro round_mag_exact [where m = "int m" and i = d]) simp_all
qed

lemma round_mag_0: "round_mag 0 = 0"
  using round_mag_dyadic [of 0 0] by simp

lemma round_mag_1: "round_mag 1 = 1"
  using round_mag_dyadic [of 1 0] by simp

lemma round_mag_100: "round_mag 100 = 100"
  using round_mag_dyadic [of 100 0] by simp

text \<open>Values of \<open>rne\<close> and of the rounding in a binade, for the examples below.\<close>

lemma rne_nearest: assumes "\<bar>x - of_int n\<bar> < 1 / 2" shows "rne x = n"
proof (cases "of_int n \<le> x")
  case True
  with assms have "\<lfloor>x\<rfloor> = n" by (intro floor_unique) auto
  with assms True show ?thesis by (simp add: rne_def)
next
  case False
  with assms have "\<lfloor>x\<rfloor> = n - 1" by (intro floor_unique) auto
  with assms False show ?thesis by (simp add: rne_def)
qed

lemma one_less_overflow_threshold: "1 < overflow_threshold"
  by (simp add: overflow_threshold_def)

lemma round_double_pos:
  assumes "0 < x" and "round_mag x < overflow_threshold"
  shows "round_double z x = Finite False (round_mag x)"
  using assms by (simp add: round_double_def Let_def)

text \<open>Rounding leaves a number of at most 53 bits over a power of two as it is.\<close>

lemma round_double_dyadic:
  assumes "0 < m" and "m < 2 ^ 53" and "j \<le> 1074"
  shows "round_double z (of_nat m / 2 ^ j) = Finite False (of_nat m / 2 ^ j)"
proof -
  let ?x = "of_nat m / 2 ^ j :: rat"
  have "(of_nat m :: rat) < of_nat (2 ^ 53)" using assms(2) by (simp only: of_nat_less_iff)
  then have m: "(of_nat m :: rat) < 2 ^ 53" by simp
  have "?x \<le> of_nat m / 1" by (intro divide_left_mono) simp_all
  with m have "?x < 2 ^ 53" by simp
  moreover have "(2::rat) ^ 53 \<le> overflow_threshold" by (simp add: overflow_threshold_def)
  ultimately have lt: "?x < overflow_threshold" by (rule less_le_trans)
  have pos: "0 < ?x" using assms(1) by simp
  have rm: "round_mag ?x = ?x" using assms(2,3) by (rule round_mag_dyadic)
  have "round_double z ?x = Finite False (round_mag ?x)"
    using pos lt by (intro round_double_pos) (simp_all only: rm)
  then show ?thesis by (simp only: rm)
qed

text \<open>The binade from one half to one: the grid has step \<open>2\<^sup>-\<^sup>5\<^sup>3\<close>.\<close>

lemma round_mag_below_one:
  assumes "1 / 2 \<le> x" and "x < 1"
  shows "round_mag x = of_int (rne (x * 2 ^ 53)) / 2 ^ 53"
proof -
  define k :: nat where "k = 1021"
  have c: "subnormal_scale = 2 ^ k * 2 ^ 53" by (simp add: subnormal_scale_def k_def)
  have lo: "2 ^ (k + 52) \<le> x * subnormal_scale"
    using assms(1) by (simp add: c power_add)
  have hi: "x * subnormal_scale < 2 ^ (k + 53)"
    using assms(2) by (simp add: c power_add)
  show ?thesis
    unfolding round_mag_binade [OF lo hi] by (simp add: c)
qed

text \<open>Between 64 and 128 the grid has step \<open>2\<^sup>-\<^sup>4\<^sup>6\<close>: the double before \<open>100.0\<close>.\<close>

lemma double_below_hundred:
  assumes "round_mag p = p" and "p < 100"
  shows "p \<le> 100 - 1 / 2 ^ 46"
proof (cases "p < 64")
  case True
  then show ?thesis by simp
next
  case False
  define k :: nat where "k = 1028"
  have c: "subnormal_scale = 2 ^ k * 2 ^ 46" by (simp add: subnormal_scale_def k_def)
  have lo: "2 ^ (k + 52) \<le> p * subnormal_scale"
    using False by (simp add: c power_add)
  have hi: "p * subnormal_scale < 2 ^ (k + 53)"
    using assms(2) by (simp add: c power_add)
  define n where "n = rne (p * subnormal_scale / 2 ^ k)"
  have "p = of_int n / 2 ^ 46"
    using assms(1) unfolding round_mag_binade [OF lo hi] n_def by (simp add: c)
  then have p: "p * 2 ^ 46 = of_int n" by simp
  with assms(2) have "(of_int n :: rat) < of_int (100 * 2 ^ 46)" by simp
  then have "n < 100 * 2 ^ 46" by (simp only: of_int_less_iff)
  then have "n \<le> 100 * 2 ^ 46 - 1" by simp
  then have "(of_int n :: rat) \<le> of_int (100 * 2 ^ 46 - 1)" by (simp only: of_int_le_iff)
  with p show ?thesis by simp
qed

lemma round_mag_quotient_below_hundred:
  "round_mag ((100 - 1 / 2 ^ 46) / 100) = 1 - 1 / 2 ^ 53"
proof -
  have "rne ((100 - 1 / 2 ^ 46) / 100 * 2 ^ 53) = 2 ^ 53 - 1"
    by (rule rne_nearest) simp
  then show ?thesis by (subst round_mag_below_one) simp_all
qed

lemma round_mag_ulp_one: "round_mag (1 / 2 ^ 53) = 1 / 2 ^ 53"
  using round_mag_dyadic [of 1 53] by simp

subsection \<open>The result of rounding is a double, and a nearest one\<close>

lemma rne_half: "\<bar>of_int (rne x) - x\<bar> \<le> 1 / 2"
proof -
  have "of_int \<lfloor>x\<rfloor> \<le> x" "x < of_int \<lfloor>x\<rfloor> + 1" by linarith+
  then show ?thesis by (auto simp: rne_def Let_def)
qed

lemma rne_nearest_int: "\<bar>of_int (rne x) - x\<bar> \<le> \<bar>of_int j - x\<bar>"
proof (cases "j = rne x")
  case True
  then show ?thesis by simp
next
  case False
  then have "1 \<le> \<bar>j - rne x\<bar>" by simp
  then have "(of_int 1 :: rat) \<le> of_int \<bar>j - rne x\<bar>" by (simp only: of_int_le_iff)
  then have "1 \<le> \<bar>(of_int j :: rat) - of_int (rne x)\<bar>" by simp
  with rne_half [of x] show ?thesis by linarith
qed

lemma round_mag_scaled:
  "round_mag x * subnormal_scale = of_int (rne (x * subnormal_scale / 2 ^ lsb_exp x) * 2 ^ lsb_exp x)"
  using subnormal_scale_pos by (simp add: round_mag_def Let_def)

lemma rne_scaled_bounds:
  assumes "0 \<le> x"
  shows "0 \<le> rne (x * subnormal_scale / 2 ^ lsb_exp x)"
    and "rne (x * subnormal_scale / 2 ^ lsb_exp x) \<le> 2 ^ 53"
proof -
  let ?t = "x * subnormal_scale / 2 ^ lsb_exp x"
  have "0 \<le> ?t" using assms subnormal_scale_pos by simp
  then show "0 \<le> rne ?t" using rne_mono [of 0 ?t] rne_of_int [of 0] by simp
  have "x * subnormal_scale < 2 ^ (lsb_exp x + 53)" by (rule lsb_exp_upper)
  then have "?t \<le> 2 ^ 53" by (simp add: divide_le_eq power_add mult.commute)
  then show "rne ?t \<le> 2 ^ 53" by (rule rne_le_pow)
qed

lemma round_mag_idem:
  assumes "0 \<le> x"
  shows "round_mag (round_mag x) = round_mag x"
proof -
  define n where "n = rne (x * subnormal_scale / 2 ^ lsb_exp x)"
  have v: "round_mag x * subnormal_scale = of_int (n * 2 ^ lsb_exp x)"
    unfolding n_def by (rule round_mag_scaled)
  have n: "0 \<le> n" "n \<le> 2 ^ 53" unfolding n_def using assms by (rule rne_scaled_bounds)+
  show ?thesis
  proof (cases "n < 2 ^ 53")
    case True
    with v n(1) show ?thesis by (rule round_mag_exact)
  next
    case False
    with n(2) have "n = 2 ^ 53" by simp
    with v have "round_mag x * subnormal_scale = of_int (2 ^ 52 * 2 ^ (lsb_exp x + 1))" by simp
    then show ?thesis by (rule round_mag_exact) simp_all
  qed
qed

lemma round_mag_nonneg: "0 \<le> x \<Longrightarrow> 0 \<le> round_mag x"
  using round_mag_mono [of 0 x] by (simp add: round_mag_0)

lemma round_double_is_double: "is_double (round_double z x)"
  using round_mag_nonneg [of "\<bar>x\<bar>"] round_mag_idem [of "\<bar>x\<bar>"]
  by (simp add: round_double_def Let_def)

lemma zero_is_double: "is_double (Finite s 0)"
  using one_less_overflow_threshold by (simp add: round_mag_0)

lemma d_add_is_double: "is_double (d_add a b)"
  by (cases a; cases b) (simp_all add: round_double_is_double)

lemma d_sub_is_double: "is_double (d_sub a b)"
  by (simp add: d_sub_def d_add_is_double)

lemma d_mul_is_double: "is_double (d_mul a b)"
  by (cases a; cases b) (simp_all add: round_double_is_double)

lemma d_div_is_double: "is_double (d_div a b)"
  by (cases a; cases b) (simp_all add: round_double_is_double zero_is_double del: is_double.simps(1))

lemma d_of_nat_is_double: "is_double (d_of_nat n)"
  by (simp add: d_of_nat_def round_double_is_double)

text \<open>No double is nearer to \<open>x\<close> than the one that \<open>x\<close> is rounded to.\<close>

lemma round_mag_nearest:
  assumes "0 \<le> x" and "0 \<le> g" and "round_mag g = g"
  shows "\<bar>round_mag x - x\<bar> \<le> \<bar>g - x\<bar>"
proof -
  define k where "k = lsb_exp x"
  define u where "u = 2 ^ k / subnormal_scale"
  define t where "t = x * subnormal_scale / 2 ^ k"
  define n where "n = rne t"
  define G where "G = g * subnormal_scale / 2 ^ k"
  have u: "0 < u" using subnormal_scale_pos by (simp add: u_def)
  have x: "x = t * u" using subnormal_scale_pos by (simp add: t_def u_def)
  have g: "g = G * u" using subnormal_scale_pos by (simp add: G_def u_def)
  have v: "round_mag x = of_int n * u"
    by (simp add: round_mag_def Let_def n_def t_def u_def k_def)
  have near: "\<bar>of_int n - t\<bar> \<le> \<bar>G - t\<bar>"
  proof (cases "k \<le> lsb_exp g")
    case True
    then obtain d where d: "lsb_exp g = k + d" using le_Suc_ex by blast
    define j where "j = rne (g * subnormal_scale / 2 ^ lsb_exp g) * 2 ^ d"
    have "g * subnormal_scale = of_int (rne (g * subnormal_scale / 2 ^ lsb_exp g) * 2 ^ lsb_exp g)"
      using round_mag_scaled [of g] assms(3) by simp
    then have "g * subnormal_scale = of_int j * 2 ^ k"
      by (simp add: j_def d power_add mult.commute mult.left_commute)
    then have "G = of_int j" by (simp add: G_def)
    then show ?thesis unfolding n_def by (simp only: rne_nearest_int)
  next
    case False
    then have lt: "lsb_exp g < k" by simp
    then have "0 < lsb_exp x" by (simp add: k_def)
    then have "2 ^ (k + 52) \<le> x * subnormal_scale" unfolding k_def by (rule lsb_exp_lower)
    then have t: "2 ^ 52 \<le> t" by (simp add: t_def le_divide_eq power_add mult.commute)
    then have "2 ^ 52 \<le> n" unfolding n_def by (rule rne_ge_pow)
    then have "n = 2 ^ 52 \<or> 2 ^ 52 + 1 \<le> n" by linarith
    then have n: "(of_int n :: rat) = 2 ^ 52 \<or> (2 ^ 52 + 1 :: rat) \<le> of_int n"
    proof
      assume "n = 2 ^ 52"
      then show ?thesis by simp
    next
      assume "2 ^ 52 + 1 \<le> n"
      then have "(of_int (2 ^ 52 + 1) :: rat) \<le> of_int n" by (simp only: of_int_le_iff)
      then show ?thesis by simp
    qed
    have "g * subnormal_scale < 2 ^ (lsb_exp g + 53)" by (rule lsb_exp_upper)
    also have "(2::rat) ^ (lsb_exp g + 53) \<le> 2 ^ (k + 52)"
      using lt by (intro power_increasing) auto
    finally have G: "G < 2 ^ 52" by (simp add: G_def divide_less_eq power_add mult.commute)
    have "\<bar>of_int n - t\<bar> \<le> 1 / 2" unfolding n_def by (rule rne_half)
    with n t G show ?thesis by linarith
  qed
  have "round_mag x - x = of_int n * u - x" by (simp only: v)
  also have "\<dots> = of_int n * u - t * u" using x by simp
  finally have "round_mag x - x = (of_int n - t) * u" by (simp add: left_diff_distrib)
  then have "\<bar>round_mag x - x\<bar> = \<bar>of_int n - t\<bar> * u" using u by (simp add: abs_mult)
  also have "\<dots> \<le> \<bar>G - t\<bar> * u" using near u by (simp add: mult_right_mono)
  also have "\<dots> = \<bar>(G - t) * u\<bar>" using u by (simp add: abs_mult)
  also have "(G - t) * u = G * u - t * u" by (simp add: left_diff_distrib)
  also have "\<dots> = g - x" using g x by simp
  finally show ?thesis .
qed

subsection \<open>The discounted cost is not above the base cost\<close>

text \<open>A rate that passes the checks of the constructor, or \<open>-0.0\<close>.\<close>

lemma rate_in_range:
  assumes "is_double r" and "d_le d_zero r" and "d_lt r d_hundred"
  obtains p where "r = Finite False p" and "0 \<le> p" and "p < 100" and "round_mag p = p"
  | "r = Finite True 0"
proof (cases r)
  case (Finite s p)
  with assms have p: "0 \<le> p" "round_mag p = p" "0 \<le> sval s p" "sval s p < 100"
    by (auto simp: d_le_def d_zero_def d_hundred_def sval_def split: if_splits)
  show ?thesis
  proof (cases s)
    case True
    with p have "p = 0" by (simp add: sval_def)
    with True Finite that(2) show ?thesis by simp
  next
    case False
    with p Finite that(1) show ?thesis by (simp add: sval_def)
  qed
next
  case (Infinity s)
  with assms show ?thesis by (cases s) (simp_all add: d_le_def d_zero_def d_hundred_def)
next
  case NaN
  with assms show ?thesis by (simp add: d_le_def d_zero_def)
qed

text \<open>The factor \<open>1.0 - discountPercent / 100.0\<close> of a rate in range is in \<open>[2\<^sup>-\<^sup>5\<^sup>3, 1]\<close>.\<close>

lemma discount_factor:
  assumes "is_double r" and "d_le d_zero r" and "d_lt r d_hundred"
  shows "\<exists>m. d_sub d_one (d_div r d_hundred) = Finite False m \<and> 1 / 2 ^ 53 \<le> m \<and> m \<le> 1"
  using assms
proof (cases r rule: rate_in_range)
  case (1 p)
  define q where "q = round_mag (p / 100)"
  have "round_mag 0 \<le> q" unfolding q_def using 1(2) by (intro round_mag_mono) simp
  then have q0: "0 \<le> q" by (simp add: round_mag_0)
  have "p \<le> 100 - 1 / 2 ^ 46" using 1(4) 1(3) by (rule double_below_hundred)
  then have "p / 100 \<le> (100 - 1 / 2 ^ 46) / 100" by (simp only: divide_right_mono)
  then have "q \<le> round_mag ((100 - 1 / 2 ^ 46) / 100)" unfolding q_def by (rule round_mag_mono)
  then have q1: "q \<le> 1 - 1 / 2 ^ 53" by (simp only: round_mag_quotient_below_hundred)
  have quot: "d_div r d_hundred = Finite False q"
    using 1(2) q1 one_less_overflow_threshold
    by (simp add: 1(1) d_hundred_def sval_def round_double_def Let_def q_def [symmetric])
  define m where "m = round_mag (1 - q)"
  have "round_mag (1 / 2 ^ 53) \<le> m" unfolding m_def using q1 by (intro round_mag_mono) simp
  then have m0: "1 / 2 ^ 53 \<le> m" by (simp only: round_mag_ulp_one)
  have "m \<le> round_mag 1" unfolding m_def using q0 by (intro round_mag_mono) simp
  then have m1: "m \<le> 1" by (simp only: round_mag_1)
  have "0 < 1 - q" using q1 by simp
  then have "round_double False (1 - q) = Finite False m"
    unfolding m_def using m1 one_less_overflow_threshold
    by (intro round_double_pos) (simp_all add: m_def)
  then have "d_sub d_one (d_div r d_hundred) = Finite False m"
    by (simp add: quot d_sub_def d_one_def sval_def)
  with m0 m1 show ?thesis by blast
next
  case 2
  then have "d_sub d_one (d_div r d_hundred) = Finite False 1"
    using one_less_overflow_threshold
    by (simp add: d_sub_def d_one_def d_hundred_def sval_def round_double_def Let_def round_mag_0 round_mag_1)
  then show ?thesis by simp
qed

lemma discount_factor_zero_rate:
  assumes "d_eq r d_zero"
  shows "d_sub d_one (d_div r d_hundred) = Finite False 1"
proof (cases r)
  case (Finite s p)
  with assms have "p = 0" by (simp add: d_zero_def sval_def split: if_splits)
  then show ?thesis
    using one_less_overflow_threshold
    by (simp add: Finite d_sub_def d_one_def d_hundred_def sval_def round_double_def Let_def round_mag_0 round_mag_1)
next
  case (Infinity s)
  with assms show ?thesis by (simp add: d_zero_def)
next
  case NaN
  with assms show ?thesis by (simp add: d_zero_def)
qed

text \<open>A cost that passes the check of \<open>RoomBase\<close>.\<close>

lemma cost_positive:
  assumes "is_double b" and "d_lt d_zero b"
  obtains c where "b = Finite False c" and "0 < c" and "c < overflow_threshold" and "round_mag c = c"
  | "b = Infinity False"
proof (cases b)
  case (Finite t c)
  with assms have "0 \<le> c" "c < overflow_threshold" "round_mag c = c" "0 < sval t c"
    by (auto simp: d_zero_def sval_def split: if_splits)
  with Finite that(1) show ?thesis by (cases t) (simp_all add: sval_def)
next
  case (Infinity t)
  with assms that(2) show ?thesis by (simp add: d_zero_def)
next
  case NaN
  with assms show ?thesis by (simp add: d_zero_def)
qed

lemma d_mul_factor_le:
  assumes "is_double b" and "d_lt d_zero b" and "0 < m" and "m \<le> 1"
  shows "d_le (d_mul b (Finite False m)) b"
  using assms(1,2)
proof (cases b rule: cost_positive)
  case (1 c)
  have "c * m \<le> c" using 1(2) assms(4) by (simp add: mult_left_le)
  then have "round_mag (c * m) \<le> round_mag c" by (rule round_mag_mono)
  then have le: "round_mag (c * m) \<le> c" by (simp only: 1(4))
  moreover have "0 < c * m" using 1(2) assms(3) by simp
  ultimately have "round_double False (c * m) = Finite False (round_mag (c * m))"
    using 1(3) by (intro round_double_pos) simp_all
  then show ?thesis using le by (auto simp: 1(1) sval_def d_le_def)
next
  case 2
  with assms(3) show ?thesis by (simp add: d_le_def)
qed

lemma d_mul_one:
  assumes "is_double b" and "d_lt d_zero b"
  shows "d_mul b (Finite False 1) = b"
  using assms
proof (cases b rule: cost_positive)
  case (1 c)
  then show ?thesis by (simp add: sval_def round_double_def Let_def)
next
  case 2
  then show ?thesis by simp
qed

subsection \<open>The discounted cost is below the base cost\<close>

lemma round_mag_below_one_ulp: "round_mag (1 - 1 / 2 ^ 52) = 1 - 1 / 2 ^ 52"
  using round_mag_dyadic [of "2 ^ 52 - 1" 52] by simp

lemma round_mag_epsilon: "round_mag (1 / 2 ^ 52) = 1 / 2 ^ 52"
  using round_mag_dyadic [of 1 52] by simp

text \<open>A rate from \<open>100 * DBL_EPSILON\<close> on: the factor is at most \<open>1 - 2\<^sup>-\<^sup>5\<^sup>2\<close>.\<close>

lemma discount_factor_below_one:
  assumes "is_double r" and "d_le hundred_DBL_EPSILON r" and "d_lt r d_hundred"
  shows "\<exists>m. d_sub d_one (d_div r d_hundred) = Finite False m \<and> 0 < m \<and> m \<le> 1 - 1 / 2 ^ 52"
proof (cases r)
  case (Finite s p)
  with assms have p: "0 \<le> p" "round_mag p = p" "100 / 2 ^ 52 \<le> sval s p" "sval s p < 100"
    by (auto simp: d_le_def hundred_DBL_EPSILON_def d_hundred_def sval_def split: if_splits)
  then have s: "\<not> s" by (auto simp: sval_def split: if_splits)
  with p have lo: "100 / 2 ^ 52 \<le> p" and hi: "p < 100" by (simp_all add: sval_def)
  define q where "q = round_mag (p / 100)"
  have "(1 / 2 ^ 52 :: rat) \<le> p / 100" using lo by simp
  then have "round_mag (1 / 2 ^ 52) \<le> q" unfolding q_def by (rule round_mag_mono)
  then have q0: "1 / 2 ^ 52 \<le> q" by (simp only: round_mag_epsilon)
  have "p \<le> 100 - 1 / 2 ^ 46" using p(2) hi by (rule double_below_hundred)
  then have "p / 100 \<le> (100 - 1 / 2 ^ 46) / 100" by (simp only: divide_right_mono)
  then have "q \<le> round_mag ((100 - 1 / 2 ^ 46) / 100)" unfolding q_def by (rule round_mag_mono)
  then have q1: "q \<le> 1 - 1 / 2 ^ 53" by (simp only: round_mag_quotient_below_hundred)
  have quot: "d_div r d_hundred = Finite False q"
    using p(1) s q1 one_less_overflow_threshold
    by (simp add: Finite d_hundred_def sval_def round_double_def Let_def q_def [symmetric])
  define m where "m = round_mag (1 - q)"
  have "round_mag (1 / 2 ^ 53) \<le> m" unfolding m_def using q1 by (intro round_mag_mono) simp
  then have "1 / 2 ^ 53 \<le> m" by (simp only: round_mag_ulp_one)
  then have m0: "0 < m" by (rule less_le_trans [rotated]) simp
  have "m \<le> round_mag (1 - 1 / 2 ^ 52)" unfolding m_def using q0 by (intro round_mag_mono) simp
  then have m1: "m \<le> 1 - 1 / 2 ^ 52" by (simp only: round_mag_below_one_ulp)
  have "0 < 1 - q" using q1 by simp
  moreover have "round_mag (1 - q) < overflow_threshold"
    using m1 one_less_overflow_threshold by (simp add: m_def [symmetric])
  ultimately have "round_double False (1 - q) = Finite False m"
    unfolding m_def by (rule round_double_pos)
  then have "d_sub d_one (d_div r d_hundred) = Finite False m"
    by (simp add: quot d_sub_def d_one_def sval_def)
  with m0 m1 show ?thesis by blast
next
  case (Infinity s)
  with assms show ?thesis by (cases s) (simp_all add: d_le_def hundred_DBL_EPSILON_def d_hundred_def)
next
  case NaN
  with assms show ?thesis by (simp add: d_le_def hundred_DBL_EPSILON_def)
qed

text \<open>
  A normal cost \<open>c\<close> has an integer significand \<open>n \<ge> 2\<^sup>5\<^sup>2\<close> in units of its last bit; a
  product with a factor of at most \<open>1 - 2\<^sup>-\<^sup>5\<^sup>2\<close> is at most the double before \<open>c\<close>.
\<close>

lemma d_mul_factor_less:
  assumes c: "1 / 2 ^ 1022 \<le> c" "c < overflow_threshold" "round_mag c = c"
    and m: "0 < m" "m \<le> 1 - 1 / 2 ^ 52"
  shows "d_lt (d_mul (Finite False c) (Finite False m)) (Finite False c)"
proof -
  define k where "k = lsb_exp c"
  define n where "n = rne (c * subnormal_scale / 2 ^ k)"
  have pos: "0 < c" using c(1) by (rule less_le_trans [rotated]) simp
  have sc: "c * subnormal_scale = of_int (n * 2 ^ k)"
    using round_mag_scaled [of c] c(3) by (simp add: n_def k_def)
  have n53: "n \<le> 2 ^ 53" unfolding n_def k_def using pos by (intro rne_scaled_bounds(2)) simp
  have low: "2 ^ (k + 52) \<le> c * subnormal_scale"
  proof (cases "k = 0")
    case True
    define N :: nat where "N = 1022"
    have scale: "subnormal_scale = 2 ^ N * 2 ^ 52" by (simp add: subnormal_scale_def N_def)
    have "1 / 2 ^ N \<le> c" using c(1) by (simp add: N_def)
    then have "1 \<le> c * 2 ^ N" by (simp add: divide_le_eq)
    then have "1 * 2 ^ 52 \<le> (c * 2 ^ N) * 2 ^ 52" by (intro mult_right_mono) simp_all
    then have "2 ^ 52 \<le> c * subnormal_scale" by (simp only: scale mult.assoc mult_1)
    with True show ?thesis by simp
  next
    case False
    then have "0 < lsb_exp c" by (simp add: k_def)
    then show ?thesis unfolding k_def by (rule lsb_exp_lower)
  qed
  then have "(2::rat) ^ (k + 52) \<le> of_int (n * 2 ^ k)" by (simp only: sc)
  then have "(of_int (2 ^ (k + 52)) :: rat) \<le> of_int (n * 2 ^ k)" by simp
  then have "(2::int) ^ (k + 52) \<le> n * 2 ^ k" by (simp only: of_int_le_iff)
  then have "2 ^ 52 * 2 ^ k \<le> n * 2 ^ k" by (simp add: power_add mult.commute)
  then have n52: "2 ^ 52 \<le> n" by simp
  define c' where "c' = of_int ((n - 1) * 2 ^ k) / subnormal_scale"
  have c': "c' * subnormal_scale = of_int ((n - 1) * 2 ^ k)"
    using subnormal_scale_pos by (simp add: c'_def)
  have "round_mag c' = c'" using c' n52 n53 by (intro round_mag_exact [where m = "n - 1" and i = k]) simp_all
  have less: "c' < c"
  proof -
    have "(of_int ((n - 1) * 2 ^ k) :: rat) < of_int (n * 2 ^ k)"
      by (simp only: of_int_less_iff) simp
    then have "c' * subnormal_scale < c * subnormal_scale" by (simp only: c' sc)
    then show ?thesis using subnormal_scale_pos by simp
  qed
  have "c * m \<le> c * (1 - 1 / 2 ^ 52)" using m(2) pos by (simp only: mult_left_mono less_imp_le)
  also have "\<dots> = c - c / 2 ^ 52" by (simp add: right_diff_distrib)
  also have "\<dots> \<le> c'"
  proof -
    define C where "C = c * subnormal_scale"
    have "(0::rat) < 2 ^ 52" by simp
    moreover have "2 ^ k * 2 ^ 52 \<le> C" using low by (simp only: C_def power_add)
    ultimately have "2 ^ k \<le> C / 2 ^ 52" by (simp only: pos_le_divide_eq)
    moreover have "(c - c / 2 ^ 52) * subnormal_scale = C - C / 2 ^ 52"
      by (simp only: C_def left_diff_distrib times_divide_eq_left)
    moreover have "c' * subnormal_scale = C - 2 ^ k"
      by (simp add: c' C_def sc left_diff_distrib)
    ultimately have "(c - c / 2 ^ 52) * subnormal_scale \<le> c' * subnormal_scale" by linarith
    then show ?thesis using subnormal_scale_pos by (rule mult_right_le_imp_le)
  qed
  finally have "round_mag (c * m) \<le> round_mag c'" by (rule round_mag_mono)
  with \<open>round_mag c' = c'\<close> less have lt: "round_mag (c * m) < c" by simp
  moreover have "0 < c * m" using pos m(1) by simp
  ultimately have "round_double False (c * m) = Finite False (round_mag (c * m))"
    using c(2) by (intro round_double_pos) simp_all
  then show ?thesis using lt by (simp add: sval_def)
qed

text \<open>
  Outside these bounds the cost with a discount can be the base cost itself: a subnormal
  cost (\<open>2\<^sup>-\<^sup>1\<^sup>0\<^sup>7\<^sup>4\<close> at 25 percent: three quarters of the smallest double round back to
  it) and an infinite one.
\<close>

lemma round_double_quarters:
  "round_double z (1 / 4) = Finite False (1 / 4)"
  "round_double z (3 / 4) = Finite False (3 / 4)"
  using round_double_dyadic [of 1 2 z] round_double_dyadic [of 3 2 z] by simp_all

lemma round_mag_smallest: "round_mag (3 / 4 / subnormal_scale) = 1 / subnormal_scale"
proof -
  have sc: "3 / 4 / subnormal_scale * subnormal_scale = 3 / 4"
    using subnormal_scale_pos by simp
  have "lsb_exp (3 / 4 / subnormal_scale) \<le> 0"
    by (rule lsb_exp_le) (simp only: sc, simp)
  then have k: "lsb_exp (3 / 4 / subnormal_scale) = 0" by simp
  have "rne (3 / 4) = 1" by (rule rne_nearest) simp
  then show ?thesis unfolding round_mag_def Let_def k sc by simp
qed

lemma computeCost_not_less_outside_bounds:
  "computeCost (PercentageDiscountStrategy (Finite False 25)) (Finite False (1 / subnormal_scale)) =
     Finite False (1 / subnormal_scale) \<and>
   computeCost (PercentageDiscountStrategy (Finite False 25)) (Infinity False) = Infinity False"
proof -
  have factor: "d_sub d_one (d_div (Finite False 25) d_hundred) = Finite False (3 / 4)"
    by (simp add: d_sub_def d_one_def d_hundred_def sval_def round_double_quarters)
  have pos: "0 < 3 / 4 / subnormal_scale" using subnormal_scale_pos by simp
  have "(1::rat) / subnormal_scale < overflow_threshold"
    by (simp add: subnormal_scale_def overflow_threshold_def)
  then have "round_mag (3 / 4 / subnormal_scale) < overflow_threshold"
    by (simp only: round_mag_smallest)
  with pos have "round_double False (3 / 4 / subnormal_scale) =
      Finite False (round_mag (3 / 4 / subnormal_scale))"
    by (rule round_double_pos)
  then have r: "round_double False (3 / 4 / subnormal_scale) = Finite False (1 / subnormal_scale)"
    by (simp only: round_mag_smallest)
  have "sval False (1 / subnormal_scale) * sval False (3 / 4) = 3 / 4 / subnormal_scale"
    by (simp add: sval_def)
  then have "d_mul (Finite False (1 / subnormal_scale)) (Finite False (3 / 4)) =
      Finite False (1 / subnormal_scale)"
    by (simp only: d_mul.simps r simp_thms if_False)
  moreover have "d_mul (Infinity False) (Finite False (3 / 4)) = Infinity False" by simp
  ultimately show ?thesis by (simp only: computeCost.simps factor simp_thms)
qed

section \<open>Properties of the hotel\<close>

lemma existsRoomNumber_loop_iff: "existsRoomNumber_loop rs num \<longleftrightarrow> num \<in> set (map number rs)"
  by (induction rs) auto

lemma existsRoomNumber_iff: "existsRoomNumber h num \<longleftrightarrow> num \<in> set (map number (rooms h))"
  by (simp add: existsRoomNumber_def existsRoomNumber_loop_iff)

lemma calculateAverageCost_loop_foldl:
  "calculateAverageCost_loop acc rs = foldl d_add acc (map getFinalCost rs)"
  by (induction rs arbitrary: acc) simp_all

lemma d_lt_not_ge: "d_lt a b \<Longrightarrow> \<not> d_ge a b"
  by (cases a; cases b) (auto simp: d_ge_def d_le_def)

lemma d_le_not_lt: "d_le a b \<Longrightarrow> \<not> d_lt b a"
  by (cases a; cases b) (auto simp: d_le_def)

lemma d_lt_not_le: "d_lt a b \<Longrightarrow> \<not> d_le b a"
  by (cases a; cases b) (auto simp: d_le_def)

lemma new_RoomBase_Inr:
  "new_RoomBase num cost strategy = Inr room \<Longrightarrow> number room = num \<and> baseCost room = cost \<and> strategy = Some (discountStrategy room)"
  by (auto simp: new_RoomBase_def split: if_splits option.splits)

lemma addRoom_throws:
  "thrown (addRoom h num cost percent) = Some e \<Longrightarrow> hotel_after (addRoom h num cost percent) = h"
  by (auto simp: addRoom_def Let_def split: if_splits sum.splits)

lemma addRoom_returns:
  "thrown (addRoom h num cost percent) = None \<Longrightarrow>
     \<not> existsRoomNumber h num \<and>
     (\<exists>room. number room = num \<and> baseCost room = cost \<and>
        hotel_after (addRoom h num cost percent) = h\<lparr>rooms := rooms h @ [room]\<rparr>)"
  by (auto simp: addRoom_def Let_def split: if_splits sum.splits dest: new_RoomBase_Inr)

lemma addRoom_step:
  "rooms (hotel_after (addRoom h num cost percent)) = rooms h \<or>
   (num \<notin> set (map number (rooms h)) \<and>
    (\<exists>room. number room = num \<and>
       rooms (hotel_after (addRoom h num cost percent)) = rooms h @ [room]))"
proof (cases "thrown (addRoom h num cost percent)")
  case None
  from addRoom_returns [OF None] show ?thesis by (auto simp: existsRoomNumber_iff)
next
  case (Some e)
  from addRoom_throws [OF Some] show ?thesis by simp
qed

lemma addRoom_calls_invariant:
  assumes "distinct (map number (rooms h))"
  shows "distinct (map number (rooms (addRoom_calls h cs))) \<and>
         prefix (rooms h) (rooms (addRoom_calls h cs))"
  using assms
proof (induction h cs rule: addRoom_calls.induct)
  case (1 h)
  then show ?case by simp
next
  case (2 h num cost percent cs)
  let ?h = "hotel_after (addRoom h num cost percent)"
  from addRoom_step [of h num cost percent] "2.prems"
  have "distinct (map number (rooms ?h))" and p: "prefix (rooms h) (rooms ?h)" by auto
  with "2.IH" have "distinct (map number (rooms (addRoom_calls ?h cs)))"
    and "prefix (rooms ?h) (rooms (addRoom_calls ?h cs))" by simp_all
  with p show ?case by (auto intro: prefix_order.trans)
qed

lemma addRoom_calls_append:
  "addRoom_calls h (cs @ cs') = addRoom_calls (addRoom_calls h cs) cs'"
  by (induction h cs rule: addRoom_calls.induct) simp_all

subsection \<open>Values used in the examples\<close>

lemma round_double_values:
  "round_double z (1 / 2) = Finite False (1 / 2)"
  "round_double z 2 = Finite False 2"
  "round_double z 100 = Finite False 100"
  "round_double z 200 = Finite False 200"
  using round_double_dyadic [of 1 1 z] round_double_dyadic [of 2 0 z]
    round_double_dyadic [of 100 0 z] round_double_dyadic [of 200 0 z]
  by simp_all

lemma round_mag_values:
  "round_mag 50 = 50"
  "round_mag 200 = 200"
  "round_mag (25 / 2 ^ 58) = 25 / 2 ^ 58"
  using round_mag_dyadic [of 50 0] round_mag_dyadic [of 200 0] round_mag_dyadic [of 25 58]
  by simp_all

lemma literals_are_doubles: "is_double d_zero \<and> is_double d_one \<and> is_double d_hundred"
  by (simp add: d_zero_def d_one_def d_hundred_def round_mag_0 round_mag_1 round_mag_100
      overflow_threshold_def)

lemma round_double_one: "round_double z 1 = Finite False 1"
  using round_double_dyadic [of 1 0 z] by simp

lemma round_double_tiny: "round_double z (1 / 2 ^ 60) = Finite False (1 / 2 ^ 60)"
  using round_double_dyadic [of 1 60 z] by simp

text \<open>\<open>1 - 2\<^sup>-\<^sup>6\<^sup>0\<close> is nearer to \<open>1\<close> than to \<open>1 - 2\<^sup>-\<^sup>5\<^sup>3\<close>, the double before \<open>1\<close>.\<close>

lemma round_double_absorbed: "round_double z (1 - 1 / 2 ^ 60) = Finite False 1"
proof -
  have "rne ((1 - 1 / 2 ^ 60) * 2 ^ 53) = 2 ^ 53"
    by (rule rne_nearest) simp
  then have "round_mag (1 - 1 / 2 ^ 60) = 1"
    by (subst round_mag_below_one) simp_all
  then show ?thesis
    using one_less_overflow_threshold round_double_pos [of "1 - 1 / 2 ^ 60" z] by simp
qed

lemma d_eq_refl: "is_double b \<Longrightarrow> d_lt d_zero b \<Longrightarrow> d_eq b b"
  by (cases b rule: cost_positive) simp_all

section \<open>The claims\<close>

text \<open>
  C1. \<open>calculateAverageCost\<close> throws \<open>EmptyRoomListException\<close> for a hotel without rooms.
  For every other hotel it returns the sum of \<open>getFinalCost\<close> over the rooms, added up
  from \<open>0.0\<close> in the order of the collection, divided by the number of rooms; the
  quotient is returned as it is.
\<close>

theorem calculateAverageCost_is_mean:
  "calculateAverageCost h =
     (if rooms h = [] then Inl EmptyRoomListException
      else Inr (d_div (foldl d_add d_zero (map getFinalCost (rooms h)))
                      (d_of_nat (length (rooms h)))))"
  by (simp add: calculateAverageCost_def calculateAverageCost_loop_foldl)

theorem calculateAverageCost_is_mean_witness:
  "calculateAverageCost new_Hotel = Inl EmptyRoomListException \<and>
   calculateAverageCost
     \<lparr>rooms = [\<lparr>number = ''101'', baseCost = Finite False 100,
                  discountStrategy = NoDiscountStrategy\<rparr>,
               \<lparr>number = ''102'', baseCost = Finite False 200,
                  discountStrategy = PercentageDiscountStrategy (Finite False 50)\<rparr>]\<rparr>
     = Inr (Finite False 100)"
  using calculateAverageCost_is_mean [of new_Hotel]
    calculateAverageCost_is_mean
      [of "\<lparr>rooms = [\<lparr>number = ''101'', baseCost = Finite False 100,
                  discountStrategy = NoDiscountStrategy\<rparr>,
               \<lparr>number = ''102'', baseCost = Finite False 200,
                  discountStrategy = PercentageDiscountStrategy (Finite False 50)\<rparr>]\<rparr>"]
  by (simp add: new_Hotel_def getFinalCost_def d_sub_def d_of_nat_def d_zero_def d_one_def
      d_hundred_def sval_def round_double_values)

text \<open>
  C2. When a room of the collection has the number \<open>num\<close>, \<open>addRoom\<close> with \<open>num\<close> throws
  \<open>DuplicateRoomException\<close> for \<open>num\<close> and the hotel after the call is the hotel before
  it: the same rooms, and as many.
\<close>

theorem addRoom_duplicate:
  assumes "num \<in> set (map number (rooms h))"
  shows "thrown (addRoom h num cost percent) = Some (DuplicateRoomException num) \<and>
         hotel_after (addRoom h num cost percent) = h \<and>
         rooms (hotel_after (addRoom h num cost percent)) = rooms h \<and>
         length (rooms (hotel_after (addRoom h num cost percent))) = length (rooms h)"
  using assms by (simp add: addRoom_def Let_def existsRoomNumber_iff)

theorem addRoom_duplicate_witness:
  "''101'' \<in> set (map number (rooms \<lparr>rooms = [\<lparr>number = ''101'', baseCost = Finite False 100,
      discountStrategy = NoDiscountStrategy\<rparr>]\<rparr>)) \<and>
   thrown (addRoom \<lparr>rooms = [\<lparr>number = ''101'', baseCost = Finite False 100,
      discountStrategy = NoDiscountStrategy\<rparr>]\<rparr> ''101'' (Finite False 150) d_zero)
     = Some (DuplicateRoomException ''101'') \<and>
   rooms (hotel_after (addRoom \<lparr>rooms = [\<lparr>number = ''101'', baseCost = Finite False 100,
      discountStrategy = NoDiscountStrategy\<rparr>]\<rparr> ''101'' (Finite False 150) d_zero))
     = [\<lparr>number = ''101'', baseCost = Finite False 100, discountStrategy = NoDiscountStrategy\<rparr>]"
  using addRoom_duplicate [of "''101''" "\<lparr>rooms = [\<lparr>number = ''101'', baseCost = Finite False 100,
      discountStrategy = NoDiscountStrategy\<rparr>]\<rparr>" "Finite False 150" d_zero]
  by simp

text \<open>
  C3. For a rate with \<open>0 \<le> rate < 100\<close> the constructor of \<open>PercentageDiscountStrategy\<close>
  returns, and \<open>computeCost\<close> of the strategy at a cost \<open>b > 0\<close> is
  \<open>b * (1.0 - rate / 100.0)\<close>, each operation that of \<open>double\<close>. \<open>computeCost\<close> of
  \<open>NoDiscountStrategy\<close> is \<open>b\<close>.
\<close>

theorem computeCost_formula:
  assumes "d_le d_zero rate" and "d_lt rate d_hundred" and "d_lt d_zero b"
  shows "(\<exists>s. new_PercentageDiscountStrategy rate = Inr s \<and>
              computeCost s b = d_mul b (d_sub d_one (d_div rate d_hundred))) \<and>
         computeCost NoDiscountStrategy b = b"
  using d_le_not_lt [OF assms(1)] d_lt_not_ge [OF assms(2)]
  by (simp add: new_PercentageDiscountStrategy_def)

theorem computeCost_formula_witness:
  "d_le d_zero (Finite False 50) \<and> d_lt (Finite False 50) d_hundred \<and>
   d_lt d_zero (Finite False 200) \<and>
   (\<exists>s. new_PercentageDiscountStrategy (Finite False 50) = Inr s \<and>
        computeCost s (Finite False 200) = Finite False 100) \<and>
   computeCost NoDiscountStrategy (Finite False 200) = Finite False 200"
proof -
  have h: "d_le d_zero (Finite False 50)" "d_lt (Finite False 50) d_hundred"
    "d_lt d_zero (Finite False 200)"
    by (simp_all add: d_le_def d_zero_def d_hundred_def sval_def)
  have "d_mul (Finite False 200) (d_sub d_one (d_div (Finite False 50) d_hundred)) = Finite False 100"
    by (simp add: d_sub_def d_one_def d_hundred_def sval_def round_double_values)
  with h computeCost_formula [OF h] show ?thesis by simp
qed

text \<open>
  C4. The constructor of \<open>PercentageDiscountStrategy\<close> throws \<open>InvalidValueException\<close> when
  \<open>rate < 0\<close> or \<open>rate \<ge> 100\<close>, and for every other rate it returns the strategy with
  that rate. \<open>computeCost\<close> checks nothing: it computes its formula for every rate.
\<close>

theorem new_PercentageDiscountStrategy_validates:
  "((\<exists>v. new_PercentageDiscountStrategy rate = Inl (InvalidValueException v)) \<longleftrightarrow>
      (d_lt rate d_zero \<or> d_ge rate d_hundred)) \<and>
   (isl (new_PercentageDiscountStrategy rate) \<longleftrightarrow> (d_lt rate d_zero \<or> d_ge rate d_hundred)) \<and>
   (new_PercentageDiscountStrategy rate = Inr (PercentageDiscountStrategy rate) \<longleftrightarrow>
      \<not> (d_lt rate d_zero \<or> d_ge rate d_hundred)) \<and>
   computeCost (PercentageDiscountStrategy rate) cost =
     d_mul cost (d_sub d_one (d_div rate d_hundred))"
  by (simp add: new_PercentageDiscountStrategy_def)

theorem new_PercentageDiscountStrategy_validates_witness:
  "new_PercentageDiscountStrategy (Finite True 5) = Inl (InvalidValueException PercentNegative) \<and>
   new_PercentageDiscountStrategy (Finite False 100) =
     Inl (InvalidValueException PercentNotBelowHundred) \<and>
   new_PercentageDiscountStrategy (Finite False 50) =
     Inr (PercentageDiscountStrategy (Finite False 50))"
  using new_PercentageDiscountStrategy_validates [of "Finite True 5"]
    new_PercentageDiscountStrategy_validates [of "Finite False 100"]
    new_PercentageDiscountStrategy_validates [of "Finite False 50"]
  by (simp add: new_PercentageDiscountStrategy_def d_ge_def d_le_def d_zero_def d_hundred_def
      sval_def)

text \<open>
  C5. The constructor of \<open>RoomBase\<close> throws \<open>InvalidValueException\<close> exactly when the
  number is the empty string, or \<open>baseCost \<le> 0\<close>, or the strategy is null. It does not
  trim: a number of one space is taken. The costs \<open>0\<close> and \<open>-5\<close> are both refused.
\<close>

theorem new_RoomBase_validates:
  "((\<exists>v. new_RoomBase num cost strategy = Inl (InvalidValueException v)) \<longleftrightarrow>
      (num = [] \<or> d_le cost d_zero \<or> strategy = None)) \<and>
   (isl (new_RoomBase num cost strategy) \<longleftrightarrow>
      (num = [] \<or> d_le cost d_zero \<or> strategy = None)) \<and>
   (\<exists>v. new_RoomBase num (Finite False 0) strategy = Inl (InvalidValueException v)) \<and>
   (\<exists>v. new_RoomBase num (Finite True 5) strategy = Inl (InvalidValueException v)) \<and>
   \<not> isl (new_RoomBase '' '' (Finite False 100) (Some NoDiscountStrategy))"
  by (simp add: new_RoomBase_def d_le_def d_zero_def sval_def split: option.split)

theorem new_RoomBase_validates_witness:
  "new_RoomBase ''101'' (Finite False 0) (Some NoDiscountStrategy) =
     Inl (InvalidValueException BaseCostNotPositive) \<and>
   new_RoomBase ''101'' (Finite True 5) (Some NoDiscountStrategy) =
     Inl (InvalidValueException BaseCostNotPositive) \<and>
   new_RoomBase '''' (Finite False 100) (Some NoDiscountStrategy) =
     Inl (InvalidValueException NumberEmpty) \<and>
   new_RoomBase ''101'' (Finite False 100) None = Inl (InvalidValueException StrategyNull) \<and>
   new_RoomBase ''101'' (Finite False 100) (Some NoDiscountStrategy) =
     Inr \<lparr>number = ''101'', baseCost = Finite False 100, discountStrategy = NoDiscountStrategy\<rparr>"
  using new_RoomBase_validates [of "''101''" "Finite False 100" "Some NoDiscountStrategy"]
  by (simp add: new_RoomBase_def d_le_def d_zero_def sval_def)

text \<open>
  C6. After every sequence of calls of \<open>addRoom\<close> on the empty hotel no two rooms have the
  same number. Further calls leave the rooms that are there where they are, in their
  order: each call adds one room at the end, with the number of the call, or changes
  nothing.
\<close>

theorem addRoom_calls_distinct_and_appended:
  "distinct (map number (rooms (addRoom_calls new_Hotel cs))) \<and>
   prefix (rooms (addRoom_calls new_Hotel cs)) (rooms (addRoom_calls new_Hotel (cs @ cs'))) \<and>
   (rooms (addRoom_calls new_Hotel (cs @ [(num, cost, percent)])) =
      rooms (addRoom_calls new_Hotel cs) \<or>
    (\<exists>room. number room = num \<and>
       rooms (addRoom_calls new_Hotel (cs @ [(num, cost, percent)])) =
         rooms (addRoom_calls new_Hotel cs) @ [room]))"
proof -
  let ?h = "addRoom_calls new_Hotel cs"
  have d: "distinct (map number (rooms ?h))"
    using addRoom_calls_invariant [of new_Hotel cs] by (simp add: new_Hotel_def)
  moreover have "prefix (rooms ?h) (rooms (addRoom_calls new_Hotel (cs @ cs')))"
    using addRoom_calls_invariant [OF d, of cs'] by (simp add: addRoom_calls_append)
  moreover have "rooms (addRoom_calls new_Hotel (cs @ [(num, cost, percent)])) = rooms ?h \<or>
    (\<exists>room. number room = num \<and>
       rooms (addRoom_calls new_Hotel (cs @ [(num, cost, percent)])) = rooms ?h @ [room])"
    using addRoom_step [of ?h num cost percent] by (auto simp: addRoom_calls_append)
  ultimately show ?thesis by blast
qed

theorem addRoom_calls_distinct_and_appended_witness:
  "rooms (addRoom_calls new_Hotel
     [(''101'', Finite False 100, d_zero), (''101'', Finite False 150, d_zero)]) =
     [\<lparr>number = ''101'', baseCost = Finite False 100, discountStrategy = NoDiscountStrategy\<rparr>] \<and>
   rooms (addRoom_calls new_Hotel
     ([(''101'', Finite False 100, d_zero), (''101'', Finite False 150, d_zero)] @
      [(''102'', Finite False 200, Finite False 50)])) =
     [\<lparr>number = ''101'', baseCost = Finite False 100, discountStrategy = NoDiscountStrategy\<rparr>,
      \<lparr>number = ''102'', baseCost = Finite False 200,
        discountStrategy = PercentageDiscountStrategy (Finite False 50)\<rparr>] \<and>
   distinct (map number (rooms (addRoom_calls new_Hotel
     [(''101'', Finite False 100, d_zero), (''101'', Finite False 150, d_zero)]))) \<and>
   prefix
     (rooms (addRoom_calls new_Hotel
       [(''101'', Finite False 100, d_zero), (''101'', Finite False 150, d_zero)]))
     (rooms (addRoom_calls new_Hotel
       ([(''101'', Finite False 100, d_zero), (''101'', Finite False 150, d_zero)] @
        [(''102'', Finite False 200, Finite False 50)])))"
proof -
  have "rooms (addRoom_calls new_Hotel
     [(''101'', Finite False 100, d_zero), (''101'', Finite False 150, d_zero)]) =
     [\<lparr>number = ''101'', baseCost = Finite False 100, discountStrategy = NoDiscountStrategy\<rparr>]"
    by (simp add: addRoom_def existsRoomNumber_def new_Hotel_def new_RoomBase_def d_le_def
        d_zero_def sval_def)
  moreover have "rooms (addRoom_calls new_Hotel
     ([(''101'', Finite False 100, d_zero), (''101'', Finite False 150, d_zero)] @
      [(''102'', Finite False 200, Finite False 50)])) =
     [\<lparr>number = ''101'', baseCost = Finite False 100, discountStrategy = NoDiscountStrategy\<rparr>,
      \<lparr>number = ''102'', baseCost = Finite False 200,
        discountStrategy = PercentageDiscountStrategy (Finite False 50)\<rparr>]"
    by (simp add: addRoom_def existsRoomNumber_def new_Hotel_def new_RoomBase_def
        new_PercentageDiscountStrategy_def d_ge_def d_le_def d_zero_def d_hundred_def sval_def)
  ultimately show ?thesis
    using addRoom_calls_distinct_and_appended
      [of "[(''101'', Finite False 100, d_zero), (''101'', Finite False 150, d_zero)]"
          "[(''102'', Finite False 200, Finite False 50)]"]
    by blast
qed

text \<open>
  C7 (as amended). For every double \<open>baseCost > 0\<close> and every double rate with
  \<open>0 \<le> rate < 100\<close>, \<open>computeCost\<close> of the percentage strategy is not greater than
  \<open>baseCost\<close>; it is equal to \<open>baseCost\<close> when \<open>rate == 0\<close>; and it is strictly less than
  \<open>baseCost\<close> when \<open>rate \<ge> 100 * DBL_EPSILON\<close> and \<open>baseCost\<close> is finite and at least
  \<open>DBL_MIN\<close>.
\<close>

theorem computeCost_below_baseCost:
  assumes "is_double b" and "is_double rate"
    and "d_lt d_zero b" and "d_le d_zero rate" and "d_lt rate d_hundred"
  shows "d_le (computeCost (PercentageDiscountStrategy rate) b) b \<and>
         (d_eq rate d_zero \<longrightarrow> d_eq (computeCost (PercentageDiscountStrategy rate) b) b) \<and>
         (d_le hundred_DBL_EPSILON rate \<and> d_le DBL_MIN b \<and> d_lt b (Infinity False) \<longrightarrow>
            d_lt (computeCost (PercentageDiscountStrategy rate) b) b)"
proof -
  obtain m where m: "d_sub d_one (d_div rate d_hundred) = Finite False m"
      "1 / 2 ^ 53 \<le> m" "m \<le> 1"
    using discount_factor [OF assms(2,4,5)] by blast
  from m(2) have "0 < m" by (rule less_le_trans [rotated]) simp
  then have "d_le (d_mul b (Finite False m)) b"
    using assms(1,3) m(3) by (intro d_mul_factor_le)
  then have le: "d_le (computeCost (PercentageDiscountStrategy rate) b) b" by (simp add: m(1))
  have eq: "d_eq (computeCost (PercentageDiscountStrategy rate) b) b" if "d_eq rate d_zero"
    using discount_factor_zero_rate [OF that] d_mul_one [OF assms(1,3)] d_eq_refl [OF assms(1,3)]
    by simp
  have less: "d_lt (computeCost (PercentageDiscountStrategy rate) b) b"
    if rate: "d_le hundred_DBL_EPSILON rate" and low: "d_le DBL_MIN b"
      and fin: "d_lt b (Infinity False)"
  proof -
    obtain f where f: "d_sub d_one (d_div rate d_hundred) = Finite False f"
        "0 < f" "f \<le> 1 - 1 / 2 ^ 52"
      using discount_factor_below_one [OF assms(2) rate assms(5)] by blast
    from assms(1,3) show ?thesis
    proof (cases b rule: cost_positive)
      case (1 c)
      with low have "1 / 2 ^ 1022 \<le> c" by (auto simp: d_le_def DBL_MIN_def sval_def)
      then have "d_lt (d_mul (Finite False c) (Finite False f)) (Finite False c)"
        using 1(3,4) f(2,3) by (rule d_mul_factor_less)
      then show ?thesis by (simp only: 1(1) computeCost.simps f(1))
    next
      case 2
      with fin show ?thesis by simp
    qed
  qed
  from le eq less show ?thesis by blast
qed

theorem computeCost_below_baseCost_witness:
  "is_double (Finite False 200) \<and> is_double (Finite False 50) \<and>
   d_lt d_zero (Finite False 200) \<and> d_le d_zero (Finite False 50) \<and>
   d_lt (Finite False 50) d_hundred \<and>
   d_le hundred_DBL_EPSILON (Finite False 50) \<and> d_le DBL_MIN (Finite False 200) \<and>
   d_lt (Finite False 200) (Infinity False) \<and>
   computeCost (PercentageDiscountStrategy (Finite False 50)) (Finite False 200) =
     Finite False 100 \<and>
   d_lt (computeCost (PercentageDiscountStrategy (Finite False 50)) (Finite False 200))
     (Finite False 200) \<and>
   is_double d_zero \<and> d_le d_zero d_zero \<and> d_lt d_zero d_hundred \<and> d_eq d_zero d_zero \<and>
   d_eq (computeCost (PercentageDiscountStrategy d_zero) (Finite False 200)) (Finite False 200)"
proof -
  have b: "is_double (Finite False 200)" "d_lt d_zero (Finite False 200)"
    by (simp_all add: round_mag_values overflow_threshold_def d_zero_def sval_def)
  have r: "is_double (Finite False 50)" "d_le d_zero (Finite False 50)"
      "d_lt (Finite False 50) d_hundred"
    by (simp_all add: round_mag_values overflow_threshold_def d_le_def d_zero_def d_hundred_def
        sval_def)
  have s: "d_le hundred_DBL_EPSILON (Finite False 50)" "d_le DBL_MIN (Finite False 200)"
      "d_lt (Finite False 200) (Infinity False)"
    by (simp_all add: d_le_def hundred_DBL_EPSILON_def DBL_MIN_def sval_def)
  have z: "is_double d_zero" "d_le d_zero d_zero" "d_lt d_zero d_hundred" "d_eq d_zero d_zero"
    by (simp_all add: round_mag_0 overflow_threshold_def d_le_def d_zero_def d_hundred_def
        sval_def)
  have v: "computeCost (PercentageDiscountStrategy (Finite False 50)) (Finite False 200) =
     Finite False 100"
    by (simp add: d_sub_def d_one_def d_hundred_def sval_def round_double_values)
  show ?thesis
    using computeCost_below_baseCost [OF b(1) r(1) b(2) r(2,3)]
      computeCost_below_baseCost [OF b(1) z(1) b(2) z(2,3)] b r s z v
    by blast
qed

text \<open>
  C7 as it is stated fails: with \<open>baseCost = 1.0\<close> and the rate \<open>25 * 2\<^sup>-\<^sup>5\<^sup>8\<close> (about
  \<open>8.7e-17\<close>) the quotient \<open>rate / 100.0\<close> is \<open>2\<^sup>-\<^sup>6\<^sup>0\<close>, the difference \<open>1.0 - 2\<^sup>-\<^sup>6\<^sup>0\<close> rounds
  to \<open>1.0\<close>, and the cost with the discount is \<open>1.0\<close>: not less than the base cost.
\<close>

theorem computeCost_strictly_less_counterexample:
  "is_double d_one \<and> is_double (Finite False (25 / 2 ^ 58)) \<and>
   d_lt d_zero d_one \<and>
   d_lt d_zero (Finite False (25 / 2 ^ 58)) \<and> d_lt (Finite False (25 / 2 ^ 58)) d_hundred \<and>
   new_PercentageDiscountStrategy (Finite False (25 / 2 ^ 58)) =
     Inr (PercentageDiscountStrategy (Finite False (25 / 2 ^ 58))) \<and>
   computeCost (PercentageDiscountStrategy (Finite False (25 / 2 ^ 58))) d_one = d_one \<and>
   \<not> d_lt (computeCost (PercentageDiscountStrategy (Finite False (25 / 2 ^ 58))) d_one) d_one"
proof -
  have "d_div (Finite False (25 / 2 ^ 58)) d_hundred = Finite False (1 / 2 ^ 60)"
    using round_double_tiny [of False] by (simp add: d_hundred_def sval_def)
  then have "d_sub d_one (d_div (Finite False (25 / 2 ^ 58)) d_hundred) = Finite False 1"
    using round_double_absorbed [of False] by (simp add: d_sub_def d_one_def sval_def)
  then have c: "computeCost (PercentageDiscountStrategy (Finite False (25 / 2 ^ 58))) d_one = d_one"
    by (simp add: d_one_def sval_def round_double_one)
  have "is_double d_one" "is_double (Finite False (25 / 2 ^ 58))"
    using round_mag_values(3) by (simp_all add: d_one_def round_mag_1 overflow_threshold_def)
  moreover have "d_lt d_zero d_one" "d_lt d_zero (Finite False (25 / 2 ^ 58))"
      "d_lt (Finite False (25 / 2 ^ 58)) d_hundred"
      "\<not> d_lt d_one d_one"
    by (simp_all add: d_zero_def d_one_def d_hundred_def sval_def)
  moreover have "new_PercentageDiscountStrategy (Finite False (25 / 2 ^ 58)) =
     Inr (PercentageDiscountStrategy (Finite False (25 / 2 ^ 58)))"
    by (simp add: new_PercentageDiscountStrategy_def d_ge_def d_le_def d_zero_def d_hundred_def
        sval_def)
  ultimately show ?thesis using c by simp
qed

text \<open>
  C8. A number of more than 50 characters that is not in the collection, with a cost
  \<open>> 0\<close> and a rate with \<open>0 \<le> rate < 100\<close>: \<open>addRoom\<close> writes its warning to \<open>cerr\<close>, throws
  nothing and appends the room.
\<close>

theorem addRoom_long_number:
  assumes "50 < length num" and "num \<notin> set (map number (rooms h))"
    and "d_lt d_zero cost" and "d_le d_zero percent" and "d_lt percent d_hundred"
  shows "addRoom h num cost percent =
           \<lparr>thrown = None,
            hotel_after = h\<lparr>rooms := rooms h @
              [\<lparr>number = num, baseCost = cost,
                discountStrategy = (if d_eq percent d_zero then NoDiscountStrategy
                                    else PercentageDiscountStrategy percent)\<rparr>]\<rparr>,
            cerr = [NumberTooLongWarning]\<rparr>"
proof -
  from assms(1) have "num \<noteq> []" by auto
  then show ?thesis
    using assms(1,2) d_lt_not_le [OF assms(3)] d_le_not_lt [OF assms(4)] d_lt_not_ge [OF assms(5)]
    by (simp add: addRoom_def Let_def existsRoomNumber_iff new_PercentageDiscountStrategy_def
        new_RoomBase_def)
qed

theorem addRoom_long_number_witness:
  "50 < length ''Presidential-Suite-With-Sea-View-And-Private-Terrace'' \<and>
   ''Presidential-Suite-With-Sea-View-And-Private-Terrace'' \<notin> set (map number (rooms new_Hotel)) \<and>
   d_lt d_zero (Finite False 200) \<and> d_le d_zero (Finite False 50) \<and>
   d_lt (Finite False 50) d_hundred \<and>
   addRoom new_Hotel ''Presidential-Suite-With-Sea-View-And-Private-Terrace''
       (Finite False 200) (Finite False 50) =
     \<lparr>thrown = None,
      hotel_after = \<lparr>rooms =
        [\<lparr>number = ''Presidential-Suite-With-Sea-View-And-Private-Terrace'',
          baseCost = Finite False 200,
          discountStrategy = PercentageDiscountStrategy (Finite False 50)\<rparr>]\<rparr>,
      cerr = [NumberTooLongWarning]\<rparr>"
proof -
  have h: "50 < length ''Presidential-Suite-With-Sea-View-And-Private-Terrace''"
    "''Presidential-Suite-With-Sea-View-And-Private-Terrace'' \<notin> set (map number (rooms new_Hotel))"
    "d_lt d_zero (Finite False 200)" "d_le d_zero (Finite False 50)"
    "d_lt (Finite False 50) d_hundred"
    by (simp_all add: new_Hotel_def d_le_def d_zero_def d_hundred_def sval_def)
  have "\<not> d_eq (Finite False 50) d_zero" by (simp add: d_zero_def sval_def)
  with addRoom_long_number [OF h] h show ?thesis by (simp add: new_Hotel_def)
qed

text \<open>
  C9. Whenever \<open>addRoom\<close> throws, whatever the exception, the hotel after the call is the
  hotel before it.
\<close>

theorem addRoom_failure_changes_nothing:
  assumes "thrown (addRoom h num cost percent) = Some e"
  shows "hotel_after (addRoom h num cost percent) = h \<and>
         rooms (hotel_after (addRoom h num cost percent)) = rooms h"
  using addRoom_throws [OF assms] by simp

theorem addRoom_failure_changes_nothing_witness:
  "thrown (addRoom \<lparr>rooms = [\<lparr>number = ''101'', baseCost = Finite False 100,
      discountStrategy = NoDiscountStrategy\<rparr>]\<rparr> ''102'' (Finite False 0) (Finite False 50))
     = Some (InvalidValueException BaseCostNotPositive) \<and>
   rooms (hotel_after (addRoom \<lparr>rooms = [\<lparr>number = ''101'', baseCost = Finite False 100,
      discountStrategy = NoDiscountStrategy\<rparr>]\<rparr> ''102'' (Finite False 0) (Finite False 50)))
     = [\<lparr>number = ''101'', baseCost = Finite False 100, discountStrategy = NoDiscountStrategy\<rparr>] \<and>
   thrown (addRoom new_Hotel ''102'' (Finite False 200) (Finite True 5))
     = Some (InvalidValueException PercentNegative) \<and>
   hotel_after (addRoom new_Hotel ''102'' (Finite False 200) (Finite True 5)) = new_Hotel \<and>
   thrown (addRoom new_Hotel ''102'' (Finite False 200) (Finite False 100))
     = Some (InvalidValueException PercentNotBelowHundred) \<and>
   hotel_after (addRoom new_Hotel ''102'' (Finite False 200) (Finite False 100)) = new_Hotel"
proof -
  have 1: "thrown (addRoom \<lparr>rooms = [\<lparr>number = ''101'', baseCost = Finite False 100,
      discountStrategy = NoDiscountStrategy\<rparr>]\<rparr> ''102'' (Finite False 0) (Finite False 50))
     = Some (InvalidValueException BaseCostNotPositive)"
    by (simp add: addRoom_def existsRoomNumber_def new_RoomBase_def
        new_PercentageDiscountStrategy_def d_ge_def d_le_def d_zero_def d_hundred_def sval_def)
  have 2: "thrown (addRoom new_Hotel ''102'' (Finite False 200) (Finite True 5))
     = Some (InvalidValueException PercentNegative)"
    by (simp add: addRoom_def existsRoomNumber_def new_Hotel_def
        new_PercentageDiscountStrategy_def d_zero_def sval_def)
  have 3: "thrown (addRoom new_Hotel ''102'' (Finite False 200) (Finite False 100))
     = Some (InvalidValueException PercentNotBelowHundred)"
    by (simp add: addRoom_def existsRoomNumber_def new_Hotel_def
        new_PercentageDiscountStrategy_def d_ge_def d_le_def d_zero_def d_hundred_def sval_def)
  show ?thesis
    using addRoom_failure_changes_nothing [OF 1] addRoom_failure_changes_nothing [OF 2]
      addRoom_failure_changes_nothing [OF 3] 1 2 3
    by simp
qed

text \<open>
  C10. When the number is in the collection and the rate is out of range (the constructor
  of the strategy would throw \<open>InvalidValueException\<close>), \<open>addRoom\<close> throws
  \<open>DuplicateRoomException\<close>: the number is checked first.
\<close>

theorem addRoom_duplicate_checked_first:
  assumes "num \<in> set (map number (rooms h))"
    and "d_lt percent d_zero \<or> d_ge percent d_hundred"
  shows "thrown (addRoom h num cost percent) = Some (DuplicateRoomException num) \<and>
         (\<exists>v. new_PercentageDiscountStrategy percent = Inl (InvalidValueException v))"
  using assms by (auto simp: addRoom_def Let_def existsRoomNumber_iff
      new_PercentageDiscountStrategy_def)

theorem addRoom_duplicate_checked_first_witness:
  "''101'' \<in> set (map number (rooms \<lparr>rooms = [\<lparr>number = ''101'', baseCost = Finite False 100,
      discountStrategy = NoDiscountStrategy\<rparr>]\<rparr>)) \<and>
   (d_lt (Finite False 150) d_zero \<or> d_ge (Finite False 150) d_hundred) \<and>
   thrown (addRoom \<lparr>rooms = [\<lparr>number = ''101'', baseCost = Finite False 100,
      discountStrategy = NoDiscountStrategy\<rparr>]\<rparr> ''101'' (Finite False 100) (Finite False 150))
     = Some (DuplicateRoomException ''101'') \<and>
   new_PercentageDiscountStrategy (Finite False 150) =
     Inl (InvalidValueException PercentNotBelowHundred)"
proof -
  have h: "''101'' \<in> set (map number (rooms \<lparr>rooms = [\<lparr>number = ''101'',
      baseCost = Finite False 100, discountStrategy = NoDiscountStrategy\<rparr>]\<rparr>))"
    "d_lt (Finite False 150) d_zero \<or> d_ge (Finite False 150) d_hundred"
    by (simp_all add: d_ge_def d_le_def d_zero_def d_hundred_def sval_def)
  have "new_PercentageDiscountStrategy (Finite False 150) =
     Inl (InvalidValueException PercentNotBelowHundred)"
    by (simp add: new_PercentageDiscountStrategy_def d_ge_def d_le_def d_zero_def d_hundred_def
        sval_def)
  with addRoom_duplicate_checked_first [OF h] h show ?thesis by blast
qed

end
